theory Spec2Isabelle
  imports Main "HOL-Library.Sublist"
begin

section \<open>Python values used by radiogaga.py\<close>

text \<open>
  Strings are lists of characters. A character stands for a code point below 256, so the
  whitespace of \<open>str.strip\<close>, \<open>str.lstrip\<close> and \<open>str.split\<close> (the characters for which
  \<open>str.isspace\<close> holds) is: tab, line feed, vertical tab, form feed, carriage return, the
  four separators 0x1C to 0x1F, the space, NEL (0x85) and the no-break space (0xA0).
\<close>

datatype py_error = UnboundLocalError | KeyError | TypeError | IndexError

definition whitespace_chars :: "char list" where
  "whitespace_chars =
     [CHR 0x09, CHR 0x0A, CHR 0x0B, CHR 0x0C, CHR 0x0D,
      CHR 0x1C, CHR 0x1D, CHR 0x1E, CHR 0x1F, CHR 0x20, CHR 0x85, CHR 0xA0]"

definition isspace :: "char \<Rightarrow> bool" where
  "isspace c = (c \<in> set whitespace_chars)"


definition strip :: "string \<Rightarrow> string" where
  "strip s = rev (dropWhile isspace (rev (dropWhile isspace s)))"

text \<open>
  \<open>s.split()\<close>: the maximal runs of non-whitespace characters, in order. \<open>split_from cur s\<close>
  scans \<open>s\<close> with the run \<open>cur\<close> collected so far.
\<close>

fun split_from :: "string \<Rightarrow> string \<Rightarrow> string list" where
  "split_from cur [] = (if cur = [] then [] else [cur])"
| "split_from cur (c # cs) =
     (if isspace c
      then (if cur = [] then split_from [] cs else cur # split_from [] cs)
      else split_from (cur @ [c]) cs)"

definition split :: "string \<Rightarrow> string list" where
  "split s = split_from [] s"

text \<open>\<open>sep.join(xs)\<close>.\<close>

fun join :: "string \<Rightarrow> string list \<Rightarrow> string" where
  "join sep [] = []"
| "join sep [x] = x"
| "join sep (x # y # ys) = x @ sep @ join sep (y # ys)"

text \<open>\<open>str(n)\<close> for a non-negative integer: its decimal digits, most significant first.\<close>

definition digit_char :: "nat \<Rightarrow> char" where
  "digit_char d = ''0123456789'' ! d"

function str_nat :: "nat \<Rightarrow> string" where
  "str_nat n = (if n < 10 then [digit_char n] else str_nat (n div 10) @ [digit_char (n mod 10)])"
  by pat_completeness auto
termination
  by (relation "measure id") auto

declare str_nat.simps [simp del]

text \<open>
  A \<open>dict\<close> keeps its keys in insertion order: \<open>d[k] = v\<close> replaces the value of a key that is
  present, where it stands, and appends a key that is absent. \<open>k in d\<close>, \<open>d[k]\<close> and
  \<open>list(d)\<close> read it.
\<close>

type_synonym ('k, 'v) dict = "('k \<times> 'v) list"

fun setitem :: "('k, 'v) dict \<Rightarrow> 'k \<Rightarrow> 'v \<Rightarrow> ('k, 'v) dict" where
  "setitem [] k v = [(k, v)]"
| "setitem ((k', v') # d) k v = (if k' = k then (k, v) # d else (k', v') # setitem d k v)"

definition contains :: "('k, 'v) dict \<Rightarrow> 'k \<Rightarrow> bool" where
  "contains d k = (k \<in> set (map fst d))"

definition getitem :: "('k, 'v) dict \<Rightarrow> 'k \<Rightarrow> py_error + 'v" where
  "getitem d k = (case map_of d k of None \<Rightarrow> Inl KeyError | Some v \<Rightarrow> Inr v)"


section \<open>Station catalog: \<open>download_radio_stations_urls\<close>\<close>

text \<open>
  \<open>soup.find_all("a", attrs={"href": URL_PATTERN})\<close> yields the anchors that carry an
  \<open>href\<close>; the loop reads \<open>link.text\<close> (the field \<open>link_text\<close>) and \<open>link["href"]\<close> of each.
\<close>

record anchor =
  link_text :: string
  href :: string

text \<open>\<open>URL_PATTERN.match(s)\<close> with \<open>URL_PATTERN = re.compile(r"https?://")\<close>: a match at the start.\<close>

definition URL_PATTERN_match :: "string \<Rightarrow> bool" where
  "URL_PATTERN_match s = (prefix ''http://'' s \<or> prefix ''https://'' s)"

text \<open>
  A compiled exclude pattern is used through \<open>pattern.search(href)\<close> only, so it is taken as
  the predicate that \<open>search\<close> decides. The parameter \<open>exclude_href_patterns\<close> defaults to
  \<open>None\<close>, which \<open>any(... for pattern in None)\<close> cannot iterate.
\<close>

type_synonym pattern = "string \<Rightarrow> bool"

definition any_search :: "pattern list \<Rightarrow> string \<Rightarrow> bool" where
  "any_search pats h = list_ex (\<lambda>p. p h) pats"

text \<open>
  \<open>EXCLUDE_HREF_PATTERNS = [re.compile(r"[^A-Za-z0-9]lofi[^A-Za-z0-9]")]\<close> (line 37): \<open>search\<close>
  finds the letters \<open>lofi\<close> anywhere in the string, between two characters that are neither
  letters nor digits.
\<close>

definition alnum :: "char \<Rightarrow> bool" where
  "alnum c =
     (c \<in> set ''ABCDEFGHIJKLMNOPQRSTUVWXYZabcdefghijklmnopqrstuvwxyz0123456789'')"

fun lofi_search :: pattern where
  "lofi_search [] = False"
| "lofi_search (c # cs) =
     ((\<not> alnum c \<and> take 4 cs = ''lofi''
        \<and> (case drop 4 cs of [] \<Rightarrow> False | b # _ \<Rightarrow> \<not> alnum b))
      \<or> lofi_search cs)"

definition EXCLUDE_HREF_PATTERNS :: "pattern list" where
  "EXCLUDE_HREF_PATTERNS = [lofi_search]"

text \<open>
  The locals of the loop: the dictionary \<open>radio_stations\<close>, and \<open>station\<close> and \<open>count\<close>, which
  are unbound (\<open>None\<close> here) until the first station header assigns them.
\<close>

record locals =
  radio_stations :: "(string, string) dict"
  station :: "string option"
  count :: "nat option"

definition init_locals :: locals where
  "init_locals = \<lparr>radio_stations = [], station = None, count = None\<rparr>"

text \<open>One iteration of \<open>for link in links\<close> (lines 139 to 158).\<close>

definition loop_body :: "pattern list option \<Rightarrow> locals \<Rightarrow> anchor \<Rightarrow> py_error + locals" where
  "loop_body exclude_href_patterns st link =
     (if \<not> URL_PATTERN_match (link_text link)
      then Inr (st\<lparr>count := Some 1, station := Some (link_text link)\<rparr>)
      else
        (case exclude_href_patterns of
           None \<Rightarrow> Inl TypeError
         | Some pats \<Rightarrow>
             if any_search pats (href link) then Inr st
             else
               (case station st of
                  None \<Rightarrow> Inl UnboundLocalError
                | Some name \<Rightarrow>
                    if contains (radio_stations st) name
                    then
                      (case count st of
                         None \<Rightarrow> Inl UnboundLocalError
                       | Some c \<Rightarrow>
                           Inr (st\<lparr>count := Some (c + 1),
                                   radio_stations :=
                                     setitem (radio_stations st)
                                       (name @ '' '' @ str_nat (c + 1)) (href link)\<rparr>))
                    else
                      Inr (st\<lparr>radio_stations :=
                                 setitem (radio_stations st) name (href link)\<rparr>))))"

fun loop :: "pattern list option \<Rightarrow> locals \<Rightarrow> anchor list \<Rightarrow> py_error + locals" where
  "loop ex st [] = Inr st"
| "loop ex st (link # links) =
     (case loop_body ex st link of
        Inl e \<Rightarrow> Inl e
      | Inr st' \<Rightarrow> loop ex st' links)"

definition download_radio_stations_urls ::
  "anchor list \<Rightarrow> pattern list option \<Rightarrow> py_error + (string, string) dict" where
  "download_radio_stations_urls links exclude_href_patterns =
     (case loop exclude_href_patterns init_locals links of
        Inl e \<Rightarrow> Inl e
      | Inr st \<Rightarrow> Inr (radio_stations st))"

section \<open>Input line: \<open>parse_user_input\<close>\<close>

text \<open>
  Lines 203 to 208. The test is \<open>" " in stripped_user_input\<close>: it looks for the space
  character, while \<open>strip\<close> and \<open>split\<close> work on every whitespace character.
  \<open>splitted_user_input[0]\<close> raises IndexError on an empty list.
\<close>

definition parse_user_input :: "string \<Rightarrow> py_error + (string \<times> string option)" where
  "parse_user_input user_input =
     (let stripped_user_input = strip user_input in
      if CHR '' '' \<in> set stripped_user_input
      then
        (case split stripped_user_input of
           [] \<Rightarrow> Inl IndexError
         | command # rest \<Rightarrow> Inr (command, Some (join '' '' rest)))
      else Inr (stripped_user_input, None))"

section \<open>Fuzzy matcher\<close>




section \<open>Completion: \<open>RadioCompleter.get_completions\<close>\<close>







section \<open>Command handlers\<close>

text \<open>
  What a handler does to the outside: lines printed and processes run. \<open>subprocess.run\<close>
  starts the process and returns when it has ended.
\<close>

datatype effect = Print string | SubprocessRun "string list"

definition MEDIA_PLAYERS_DEFAULT_ARGS :: "(string, string) dict" where
  "MEDIA_PLAYERS_DEFAULT_ARGS = [(''mpv'', ''--no-video''), (''vlc'', [])]"

definition fmt_player_cmd :: "string \<Rightarrow> string \<Rightarrow> string \<Rightarrow> string" where
  "fmt_player_cmd player player_args url = player @ '' '' @ player_args @ '' '' @ url"

text \<open>
  \<open>station_name\<close> is the second component of \<open>parse_user_input\<close>: a string or \<open>None\<close>. The
  keys of the catalog are strings, so \<open>None\<close> is never among them and \<open>radio_stations[None]\<close>
  raises KeyError; an f-string prints \<open>None\<close> as the word None.
\<close>

definition contains_opt :: "(string, 'v) dict \<Rightarrow> string option \<Rightarrow> bool" where
  "contains_opt d k = (case k of None \<Rightarrow> False | Some s \<Rightarrow> contains d s)"

definition getitem_opt :: "(string, 'v) dict \<Rightarrow> string option \<Rightarrow> py_error + 'v" where
  "getitem_opt d k = (case k of None \<Rightarrow> Inl KeyError | Some s \<Rightarrow> getitem d s)"

definition fmt_opt :: "string option \<Rightarrow> string" where
  "fmt_opt k = (case k of None \<Rightarrow> ''None'' | Some s \<Rightarrow> s)"

text \<open>
  Lines 169 to 178, with the global \<open>PLAYER\<close> as first argument; \<open>stations\<close> is the
  parameter \<open>radio_stations\<close>.
\<close>

definition command_play ::
  "string \<Rightarrow> (string, string) dict \<Rightarrow> string option \<Rightarrow> py_error + effect list" where
  "command_play PLAYER stations station_name =
     (if \<not> contains_opt stations station_name
      then Inr [Print (''Unkwnon station: '' @ fmt_opt station_name)]
      else
        (case getitem_opt stations station_name of
           Inl e \<Rightarrow> Inl e
         | Inr url \<Rightarrow>
             (case getitem MEDIA_PLAYERS_DEFAULT_ARGS PLAYER of
                Inl e \<Rightarrow> Inl e
              | Inr player_args \<Rightarrow>
                  Inr [SubprocessRun (split (fmt_player_cmd PLAYER player_args url))])))"

section \<open>Properties\<close>

lemma str_nat_2: "str_nat 2 = ''2''"
  by (simp add: str_nat.simps digit_char_def)

text \<open>
  C1. A stream link that is not excluded and comes before any station header makes the
  extraction raise: \<open>station\<close> is read at line 152 before any assignment. The claim that
  the extraction skips such a link does not hold of the code.
\<close>

theorem link_before_header_raises:
  "download_radio_stations_urls
     [\<lparr>link_text = ''http://a.example/s'', href = ''http://a.example/s''\<rparr>] (Some [])
   = Inl UnboundLocalError"
  by (simp add: download_radio_stations_urls_def loop_body_def init_locals_def
      URL_PATTERN_match_def any_search_def)

subsection \<open>Dictionaries and \<open>split\<close>\<close>

lemma contains_map_of: "contains d k \<longleftrightarrow> map_of d k \<noteq> None"
  by (simp add: contains_def map_of_eq_None_iff)

lemma getitem_present: "map_of d k = Some v \<Longrightarrow> getitem d k = Inr v"
  by (simp add: getitem_def)

lemma isspace_space: "isspace (CHR '' '')"
  by (simp add: isspace_def whitespace_chars_def)

lemma split_from_append_space:
  "isspace sp \<Longrightarrow> split_from cur (xs @ sp # ys) = split_from cur xs @ split_from [] ys"
  by (induction xs arbitrary: cur) auto

lemma split_from_word:
  "\<forall>c\<in>set w. \<not> isspace c \<Longrightarrow> cur @ w \<noteq> [] \<Longrightarrow> split_from cur w = [cur @ w]"
  by (induction w arbitrary: cur) auto

lemma split_word: "w \<noteq> [] \<Longrightarrow> \<forall>c\<in>set w. \<not> isspace c \<Longrightarrow> split w = [w]"
  using split_from_word [of w "[]"] by (simp add: split_def)

lemma split_space_append: "split (xs @ CHR '' '' # ys) = split xs @ split ys"
  by (simp add: split_def split_from_append_space isspace_space)

lemma split_nil: "split [] = []"
  by (simp add: split_def)

subsection \<open>The play handler\<close>

lemma player_args_cases:
  "getitem MEDIA_PLAYERS_DEFAULT_ARGS p =
     (if p = ''mpv'' then Inr ''--no-video'' else if p = ''vlc'' then Inr [] else Inl KeyError)"
  by (simp add: getitem_def MEDIA_PLAYERS_DEFAULT_ARGS_def)

lemma split_mpv: "split ''mpv'' = [''mpv'']"
  by (rule split_word) (simp_all add: isspace_def whitespace_chars_def)

lemma split_vlc: "split ''vlc'' = [''vlc'']"
  by (rule split_word) (simp_all add: isspace_def whitespace_chars_def)

lemma split_no_video: "split ''--no-video'' = [''--no-video'']"
  by (rule split_word) (simp_all add: isspace_def whitespace_chars_def)

lemma cmd_line_mpv:
  "split (fmt_player_cmd ''mpv'' ''--no-video'' url) = [''mpv'', ''--no-video''] @ split url"
proof -
  have "fmt_player_cmd ''mpv'' ''--no-video'' url =
          ''mpv'' @ CHR '' '' # (''--no-video'' @ CHR '' '' # url)"
    by (simp add: fmt_player_cmd_def)
  then show ?thesis
    by (simp only: split_space_append split_mpv split_no_video) simp
qed

lemma cmd_line_vlc: "split (fmt_player_cmd ''vlc'' [] url) = [''vlc''] @ split url"
proof -
  have "fmt_player_cmd ''vlc'' [] url = ''vlc'' @ CHR '' '' # ([] @ CHR '' '' # url)"
    by (simp add: fmt_player_cmd_def)
  then show ?thesis
    by (simp only: split_space_append split_vlc split_nil) simp
qed

lemma command_play_known_player:
  assumes "map_of stations name = Some url" and "PLAYER = ''mpv'' \<or> PLAYER = ''vlc''"
  shows "command_play PLAYER stations (Some name) =
           Inr [SubprocessRun
                 ((if PLAYER = ''mpv'' then [''mpv'', ''--no-video''] else [''vlc''])
                  @ split url)]"
proof -
  from assms(1) have "contains_opt stations (Some name)"
    by (simp add: contains_opt_def contains_map_of)
  moreover from assms(1) have "getitem_opt stations (Some name) = Inr url"
    by (simp add: getitem_opt_def getitem_present)
  ultimately show ?thesis
    using assms(2)
    by (auto simp: command_play_def player_args_cases cmd_line_mpv cmd_line_vlc)
qed

text \<open>
  C7, as the code has it. A name that is absent from the catalog gives the notice and
  nothing else. A name that is present, with \<open>mpv\<close> or \<open>vlc\<close> as player, gives one run of the
  player whose arguments are the player's default arguments followed by the
  whitespace-separated words of the URL; the URL itself is the final argument when it is
  not empty and holds no whitespace. The run is \<open>subprocess.run\<close>, which returns when the
  process has ended.
\<close>

theorem command_play_behaviour:
  "(\<not> contains_opt stations station_name \<longrightarrow>
      command_play PLAYER stations station_name =
        Inr [Print (''Unkwnon station: '' @ fmt_opt station_name)])
   \<and> (map_of stations name = Some url \<and> (PLAYER = ''mpv'' \<or> PLAYER = ''vlc'') \<longrightarrow>
      command_play PLAYER stations (Some name) =
        Inr [SubprocessRun
              ((if PLAYER = ''mpv'' then [''mpv'', ''--no-video''] else [''vlc''])
               @ split url)])
   \<and> (map_of stations name = Some url \<and> (PLAYER = ''mpv'' \<or> PLAYER = ''vlc'')
        \<and> url \<noteq> [] \<and> (\<forall>c\<in>set url. \<not> isspace c) \<longrightarrow>
      command_play PLAYER stations (Some name) =
        Inr [SubprocessRun
              ((if PLAYER = ''mpv'' then [''mpv'', ''--no-video''] else [''vlc''])
               @ [url])])"
proof (intro conjI impI)
  assume "\<not> contains_opt stations station_name"
  then show "command_play PLAYER stations station_name =
        Inr [Print (''Unkwnon station: '' @ fmt_opt station_name)]"
    by (simp add: command_play_def)
next
  assume "map_of stations name = Some url \<and> (PLAYER = ''mpv'' \<or> PLAYER = ''vlc'')"
  then show "command_play PLAYER stations (Some name) =
        Inr [SubprocessRun
              ((if PLAYER = ''mpv'' then [''mpv'', ''--no-video''] else [''vlc''])
               @ split url)]"
    by (simp add: command_play_known_player)
next
  assume a: "map_of stations name = Some url \<and> (PLAYER = ''mpv'' \<or> PLAYER = ''vlc'')
        \<and> url \<noteq> [] \<and> (\<forall>c\<in>set url. \<not> isspace c)"
  then have "split url = [url]"
    by (simp add: split_word)
  with a show "command_play PLAYER stations (Some name) =
        Inr [SubprocessRun
              ((if PLAYER = ''mpv'' then [''mpv'', ''--no-video''] else [''vlc''])
               @ [url])]"
    by (simp add: command_play_known_player)
qed

theorem command_play_behaviour_witness:
  "command_play ''mpv'' [(''FIP'', ''http://a.example/fip'')] (Some ''NRJ'') =
     Inr [Print ''Unkwnon station: NRJ'']
   \<and> command_play ''mpv'' [(''FIP'', ''http://a.example/fip'')] (Some ''FIP'') =
     Inr [SubprocessRun [''mpv'', ''--no-video'', ''http://a.example/fip'']]"
proof -
  note inst = command_play_behaviour [where stations = "[(''FIP'', ''http://a.example/fip'')]"
      and station_name = "Some ''NRJ''" and PLAYER = "''mpv''" and name = "''FIP''"
      and url = "''http://a.example/fip''"]
  have absent: "\<not> contains_opt [(''FIP'', ''http://a.example/fip'')] (Some ''NRJ'')"
    by (simp add: contains_opt_def contains_def)
  have present: "map_of [(''FIP'', ''http://a.example/fip'')] ''FIP'' = Some ''http://a.example/fip''
      \<and> (''mpv'' = ''mpv'' \<or> ''mpv'' = ''vlc'') \<and> ''http://a.example/fip'' \<noteq> []
      \<and> (\<forall>c\<in>set ''http://a.example/fip''. \<not> isspace c)"
    by (simp add: isspace_def whitespace_chars_def)
  from inst absent have "command_play ''mpv'' [(''FIP'', ''http://a.example/fip'')] (Some ''NRJ'') =
      Inr [Print (''Unkwnon station: '' @ fmt_opt (Some ''NRJ''))]"
    by blast
  moreover from inst present
  have "command_play ''mpv'' [(''FIP'', ''http://a.example/fip'')] (Some ''FIP'') =
      Inr [SubprocessRun ((if ''mpv'' = ''mpv'' then [''mpv'', ''--no-video''] else [''vlc''])
        @ [''http://a.example/fip''])]"
    by blast
  ultimately show ?thesis
    by (simp add: fmt_opt_def)
qed

text \<open>
  The claim C7 as it is written fails on a URL that holds whitespace (the final argument
  is the last word of the URL) and on a player without default arguments (nothing is run).
\<close>

theorem command_play_url_not_final_argument:
  "getitem [(''FIP'', ''http://a.example/fip live'')] ''FIP'' = Inr ''http://a.example/fip live''
   \<and> command_play ''mpv'' [(''FIP'', ''http://a.example/fip live'')] (Some ''FIP'') =
       Inr [SubprocessRun [''mpv'', ''--no-video'', ''http://a.example/fip'', ''live'']]
   \<and> last [''mpv'', ''--no-video'', ''http://a.example/fip'', ''live'']
       \<noteq> ''http://a.example/fip live''
   \<and> command_play ''mplayer'' [(''FIP'', ''http://a.example/fip'')] (Some ''FIP'') = Inl KeyError"
  by (simp add: command_play_def contains_opt_def contains_def getitem_opt_def getitem_def
      MEDIA_PLAYERS_DEFAULT_ARGS_def fmt_player_cmd_def split_def isspace_def
      whitespace_chars_def)

text \<open>
  C9. With a name of the catalog and a player other than \<open>mpv\<close> and \<open>vlc\<close>, the lookup
  \<open>MEDIA_PLAYERS_DEFAULT_ARGS[PLAYER]\<close> raises KeyError and the handler runs nothing.
\<close>

theorem unknown_player_raises_KeyError:
  assumes "contains stations name" and "PLAYER \<noteq> ''mpv''" and "PLAYER \<noteq> ''vlc''"
  shows "command_play PLAYER stations (Some name) = Inl KeyError"
proof -
  from assms(1) obtain url where "map_of stations name = Some url"
    by (auto simp: contains_map_of)
  then have "getitem_opt stations (Some name) = Inr url"
    by (simp add: getitem_opt_def getitem_present)
  with assms show ?thesis
    by (simp add: command_play_def contains_opt_def player_args_cases)
qed

theorem unknown_player_raises_KeyError_witness:
  "contains [(''FIP'', ''http://a.example/fip'')] ''FIP''
   \<and> ''mplayer'' \<noteq> ''mpv'' \<and> ''mplayer'' \<noteq> ''vlc''
   \<and> command_play ''mplayer'' [(''FIP'', ''http://a.example/fip'')] (Some ''FIP'')
       = Inl KeyError"
  using unknown_player_raises_KeyError [where stations = "[(''FIP'', ''http://a.example/fip'')]"
      and name = "''FIP''" and PLAYER = "''mplayer''"]
  by (simp add: contains_def)

subsection \<open>The input line\<close>

lemma split_from_Nil_iff: "split_from cur s = [] \<longleftrightarrow> cur = [] \<and> (\<forall>c\<in>set s. isspace c)"
  by (induction s arbitrary: cur) auto

lemma strip_has_word:
  assumes "strip s \<noteq> []"
  shows "\<exists>c\<in>set (strip s). \<not> isspace c"
proof -
  let ?u = "dropWhile isspace (rev (dropWhile isspace s))"
  from assms have "?u \<noteq> []"
    by (simp add: strip_def)
  then have "\<not> isspace (hd ?u)" and "hd ?u \<in> set ?u"
    by (simp_all add: hd_dropWhile)
  then show ?thesis
    by (auto simp: strip_def)
qed

lemma split_strip_nonempty: "strip s \<noteq> [] \<Longrightarrow> split (strip s) \<noteq> []"
  using strip_has_word [of s] by (auto simp: split_def split_from_Nil_iff)

text \<open>\<open>parse_user_input\<close> never raises: a stripped line that holds a space has a first word.\<close>

lemma parse_user_input_total: "\<exists>command station_name. parse_user_input s = Inr (command, station_name)"
proof (cases "CHR '' '' \<in> set (strip s)")
  case True
  then have "strip s \<noteq> []"
    by auto
  then obtain w ws where "split (strip s) = w # ws"
    using split_strip_nonempty [of s] by (cases "split (strip s)") auto
  with True show ?thesis
    by (simp add: parse_user_input_def)
next
  case False
  then show ?thesis
    by (simp add: parse_user_input_def)
qed

text \<open>The three lines that the specification gives as examples.\<close>

lemma parse_user_input_examples:
  "parse_user_input ''  play   France Inter  '' = Inr (''play'', Some ''France Inter'')"
  "parse_user_input ''search'' = Inr (''search'', None)"
  "parse_user_input [] = Inr ([], None)"
  by (simp_all add: parse_user_input_def strip_def split_def isspace_def whitespace_chars_def)

text \<open>
  C5. The words of a line are separated by any whitespace for \<open>strip\<close> and \<open>split\<close>, but the
  test that decides whether there is an argument looks for the space character alone. On
  the line \<open>play<TAB>NRJ\<close>, whose words are \<open>play\<close> and \<open>NRJ\<close>, the code returns the whole line as
  the command and no argument, where the claim gives the command \<open>play\<close> and the argument
  \<open>NRJ\<close>.
\<close>

theorem parse_user_input_tab_separator:
  "parse_user_input (''play'' @ [CHR 0x09] @ ''NRJ'') = Inr (''play'' @ [CHR 0x09] @ ''NRJ'', None)
   \<and> split (''play'' @ [CHR 0x09] @ ''NRJ'') = [''play'', ''NRJ'']"
  by (simp add: parse_user_input_def strip_def split_def isspace_def whitespace_chars_def)

subsection \<open>The fuzzy matcher\<close>


subsection \<open>Completion in station mode\<close>








subsection \<open>The extraction loop\<close>

lemma map_of_setitem: "map_of (setitem d k v) = (map_of d)(k \<mapsto> v)"
  by (induction d k v rule: setitem.induct) (auto simp: fun_eq_iff)

lemma set_setitem: "set (setitem d k v) \<subseteq> insert (k, v) (set d)"
  by (induction d k v rule: setitem.induct) auto

lemma setitem_absent: "\<not> contains d k \<Longrightarrow> setitem d k v = d @ [(k, v)]"
  by (induction d k v rule: setitem.induct) (auto simp: contains_def)

lemma contains_setitem: "contains (setitem d k v) k' \<longleftrightarrow> k' = k \<or> contains d k'"
  by (simp add: contains_map_of map_of_setitem)

lemma loop_append:
  "loop ex st (xs @ ys) = (case loop ex st xs of Inl e \<Rightarrow> Inl e | Inr st' \<Rightarrow> loop ex st' ys)"
  by (induction xs arbitrary: st) (auto split: sum.splits)

lemma loop_body_header:
  "\<not> URL_PATTERN_match (link_text a) \<Longrightarrow>
   loop_body ex st a = Inr (st\<lparr>count := Some 1, station := Some (link_text a)\<rparr>)"
  by (simp add: loop_body_def)

lemma loop_body_excluded:
  "URL_PATTERN_match (link_text a) \<Longrightarrow> any_search pats (href a) \<Longrightarrow>
   loop_body (Some pats) st a = Inr st"
  by (simp add: loop_body_def)

text \<open>Every value of the dictionary is the \<open>href\<close> of a link that passed the exclusion test.\<close>

lemma loop_body_values:
  assumes "loop_body (Some pats) st a = Inr st'"
    and "\<forall>(k, v)\<in>set (radio_stations st). \<not> any_search pats v"
  shows "\<forall>(k, v)\<in>set (radio_stations st'). \<not> any_search pats v"
  using assms set_setitem [of "radio_stations st" _ "href a"]
  by (fastforce simp: loop_body_def split: if_splits option.splits)

lemma loop_values:
  assumes "loop (Some pats) st links = Inr st'"
    and "\<forall>(k, v)\<in>set (radio_stations st). \<not> any_search pats v"
  shows "\<forall>(k, v)\<in>set (radio_stations st'). \<not> any_search pats v"
  using assms
proof (induction links arbitrary: st)
  case Nil
  then show ?case by simp
next
  case (Cons a links)
  from Cons.prems(1) obtain st1 where step: "loop_body (Some pats) st a = Inr st1"
    and rest: "loop (Some pats) st1 links = Inr st'"
    by (auto split: sum.splits)
  from step Cons.prems(2) have "\<forall>(k, v)\<in>set (radio_stations st1). \<not> any_search pats v"
    by (rule loop_body_values)
  with rest show ?case
    by (rule Cons.IH)
qed

lemma loop_skip_excluded:
  assumes "URL_PATTERN_match (link_text a)" and "any_search pats (href a)"
  shows "loop (Some pats) st (xs @ a # ys) = loop (Some pats) st (xs @ ys)"
  using assms by (simp add: loop_append loop_body_excluded split: sum.splits)

text \<open>
  C3. No value of the resulting catalog matches an exclude pattern. A stream link whose
  \<open>href\<close> matches one leaves the dictionary, the current station and the counter as they are,
  so the extraction gives the same catalog as on the sequence without that link: the next
  link of the station gets the key the excluded link would have had.
\<close>

theorem excluded_links_are_skipped:
  "(download_radio_stations_urls links (Some pats) = Inr d \<and> (k, v) \<in> set d
      \<longrightarrow> \<not> any_search pats v)
   \<and> (URL_PATTERN_match (link_text a) \<and> any_search pats (href a)
      \<longrightarrow> loop_body (Some pats) st a = Inr st)
   \<and> (URL_PATTERN_match (link_text a) \<and> any_search pats (href a)
      \<longrightarrow> download_radio_stations_urls (xs @ a # ys) (Some pats)
          = download_radio_stations_urls (xs @ ys) (Some pats))"
proof (intro conjI impI)
  assume a: "download_radio_stations_urls links (Some pats) = Inr d \<and> (k, v) \<in> set d"
  then obtain st' where "loop (Some pats) init_locals links = Inr st'"
    and d: "d = radio_stations st'"
    by (auto simp: download_radio_stations_urls_def split: sum.splits)
  then have "\<forall>(k, v)\<in>set (radio_stations st'). \<not> any_search pats v"
    using loop_values [of pats init_locals links st'] by (simp add: init_locals_def)
  with a d show "\<not> any_search pats v"
    by auto
next
  assume "URL_PATTERN_match (link_text a) \<and> any_search pats (href a)"
  then show "loop_body (Some pats) st a = Inr st"
    by (simp add: loop_body_excluded)
next
  assume "URL_PATTERN_match (link_text a) \<and> any_search pats (href a)"
  then show "download_radio_stations_urls (xs @ a # ys) (Some pats)
          = download_radio_stations_urls (xs @ ys) (Some pats)"
    by (simp add: download_radio_stations_urls_def loop_skip_excluded)
qed

theorem excluded_links_are_skipped_witness:
  "any_search EXCLUDE_HREF_PATTERNS ''http://a.example/fip-lofi.mp3''
   \<and> download_radio_stations_urls
       [\<lparr>link_text = ''FIP'', href = ''http://a.example/fip.html''\<rparr>,
        \<lparr>link_text = ''http://a.example/fip-lofi.mp3'', href = ''http://a.example/fip-lofi.mp3''\<rparr>,
        \<lparr>link_text = ''http://a.example/fip.mp3'', href = ''http://a.example/fip.mp3''\<rparr>]
       (Some EXCLUDE_HREF_PATTERNS)
     = Inr [(''FIP'', ''http://a.example/fip.mp3'')]"
proof -
  let ?h = "\<lparr>link_text = ''FIP'', href = ''http://a.example/fip.html''\<rparr>"
  let ?x = "\<lparr>link_text = ''http://a.example/fip-lofi.mp3'', href = ''http://a.example/fip-lofi.mp3''\<rparr>"
  let ?l = "\<lparr>link_text = ''http://a.example/fip.mp3'', href = ''http://a.example/fip.mp3''\<rparr>"
  have ex: "any_search EXCLUDE_HREF_PATTERNS ''http://a.example/fip-lofi.mp3''"
    by (simp add: any_search_def EXCLUDE_HREF_PATTERNS_def alnum_def)
  have url: "URL_PATTERN_match (link_text ?x)"
    by (simp add: URL_PATTERN_match_def)
  have short: "download_radio_stations_urls [?h, ?l] (Some EXCLUDE_HREF_PATTERNS)
      = Inr [(''FIP'', ''http://a.example/fip.mp3'')]"
    by (simp add: download_radio_stations_urls_def loop_body_def init_locals_def
        URL_PATTERN_match_def any_search_def EXCLUDE_HREF_PATTERNS_def alnum_def contains_def)
  from excluded_links_are_skipped [where a = ?x and pats = EXCLUDE_HREF_PATTERNS
      and xs = "[?h]" and ys = "[?l]"] url ex
  have "download_radio_stations_urls ([?h] @ ?x # [?l]) (Some EXCLUDE_HREF_PATTERNS)
      = download_radio_stations_urls ([?h] @ [?l]) (Some EXCLUDE_HREF_PATTERNS)"
    by simp
  with short ex show ?thesis
    by simp
qed

subsection \<open>Which entries an iteration can change\<close>

lemma str_nat_nonempty: "str_nat n \<noteq> []"
  by (subst str_nat.simps) simp

lemma suffixed_key_neq: "name @ '' '' @ str_nat n \<noteq> name"
  by simp

text \<open>
  An iteration changes at most one key: the bare name, when it is not yet a key, or the
  suffixed name.
\<close>

lemma loop_body_frame:
  assumes "loop_body ex st link = Inr st'" and "map_of (radio_stations st) k = Some v"
  shows "map_of (radio_stations st') k = Some v
         \<or> (\<exists>name c. station st = Some name \<and> count st = Some c
              \<and> contains (radio_stations st) name
              \<and> k = name @ '' '' @ str_nat (c + 1))"
proof (cases "\<not> URL_PATTERN_match (link_text link)")
  case True
  with assms show ?thesis
    by (auto simp: loop_body_def)
next
  case False
  obtain pats where ex: "ex = Some pats"
    using assms(1) False by (cases ex) (simp_all add: loop_body_def)
  show ?thesis
  proof (cases "any_search pats (href link)")
    case True
    with assms False ex show ?thesis
      by (simp add: loop_body_def)
  next
    case excl: False
    obtain name where name: "station st = Some name"
      using assms(1) False ex excl by (cases "station st") (simp_all add: loop_body_def)
    show ?thesis
    proof (cases "contains (radio_stations st) name")
      case True
      obtain c where c: "count st = Some c"
        using assms(1) False ex excl name True
        by (cases "count st") (simp_all add: loop_body_def)
      have "radio_stations st' =
              setitem (radio_stations st) (name @ '' '' @ str_nat (c + 1)) (href link)"
        using assms(1) False ex excl name True c by (auto simp: loop_body_def)
      with assms(2) name c True show ?thesis
        by (auto simp: map_of_setitem)
    next
      case absent: False
      have "radio_stations st' = setitem (radio_stations st) name (href link)"
        using assms(1) False ex excl name absent by (auto simp: loop_body_def)
      moreover from assms(2) absent have "k \<noteq> name"
        by (auto simp: contains_map_of)
      ultimately show ?thesis
        using assms(2) by (simp add: map_of_setitem)
    qed
  qed
qed

text \<open>The counter, once bound, is at least 1.\<close>

definition count_ok :: "locals \<Rightarrow> bool" where
  "count_ok st = (case count st of None \<Rightarrow> True | Some c \<Rightarrow> 1 \<le> c)"

lemma loop_body_count_ok:
  "loop_body ex st link = Inr st' \<Longrightarrow> count_ok st \<Longrightarrow> count_ok st'"
  by (auto simp: loop_body_def count_ok_def split: if_splits option.splits)

lemma loop_keeps_plain_key:
  assumes "loop ex st links = Inr st'" and "map_of (radio_stations st) k = Some v"
    and "count_ok st" and "\<forall>name n. 2 \<le> n \<longrightarrow> k \<noteq> name @ '' '' @ str_nat n"
  shows "map_of (radio_stations st') k = Some v"
  using assms(1-3)
proof (induction links arbitrary: st)
  case Nil
  then show ?case by simp
next
  case (Cons a links)
  from Cons.prems(1) obtain st1 where step: "loop_body ex st a = Inr st1"
    and rest: "loop ex st1 links = Inr st'"
    by (auto split: sum.splits)
  have "map_of (radio_stations st1) k = Some v"
  proof -
    from loop_body_frame [OF step Cons.prems(2)]
    show ?thesis
    proof
      assume "\<exists>name c. station st = Some name \<and> count st = Some c
              \<and> contains (radio_stations st) name \<and> k = name @ '' '' @ str_nat (c + 1)"
      then obtain name c where "count st = Some c" and k: "k = name @ '' '' @ str_nat (c + 1)"
        by blast
      with Cons.prems(3) have "2 \<le> c + 1"
        by (simp add: count_ok_def)
      with assms(4) k show ?thesis
        by blast
    qed
  qed
  moreover from step Cons.prems(3) have "count_ok st1"
    by (rule loop_body_count_ok)
  ultimately show ?case
    using rest Cons.IH [of st1] by simp
qed

lemma loop_body_station_kept:
  "loop_body ex st link = Inr st' \<Longrightarrow> URL_PATTERN_match (link_text link) \<Longrightarrow>
   station st' = station st"
  by (auto simp: loop_body_def split: if_splits option.splits)

lemma loop_keeps_bare_name:
  assumes "loop ex st links = Inr st'" and "station st = Some name"
    and "map_of (radio_stations st) name = Some v"
    and "\<forall>l\<in>set links. URL_PATTERN_match (link_text l)"
  shows "map_of (radio_stations st') name = Some v"
  using assms
proof (induction links arbitrary: st)
  case Nil
  then show ?case by simp
next
  case (Cons a links)
  from Cons.prems(1) obtain st1 where step: "loop_body ex st a = Inr st1"
    and rest: "loop ex st1 links = Inr st'"
    by (auto split: sum.splits)
  from loop_body_frame [OF step Cons.prems(3)] Cons.prems(2)
  have "map_of (radio_stations st1) name = Some v"
    by (auto simp: suffixed_key_neq)
  moreover from step Cons.prems(2,4) have "station st1 = Some name"
    by (simp add: loop_body_station_kept)
  ultimately show ?case
    using rest Cons.prems(4) Cons.IH [of st1] by simp
qed

lemma str_nat_Suc_Suc_0: "str_nat (Suc (Suc 0)) = ''2''"
  using str_nat_2 by (simp add: numeral_2_eq_2)

lemma loop_count_ok: "loop ex st links = Inr st' \<Longrightarrow> count_ok st \<Longrightarrow> count_ok st'"
proof (induction links arbitrary: st)
  case Nil
  then show ?case by simp
next
  case (Cons a links)
  from Cons.prems(1) obtain st1 where step: "loop_body ex st a = Inr st1"
    and rest: "loop ex st1 links = Inr st'"
    by (auto split: sum.splits)
  from step Cons.prems(2) have "count_ok st1"
    by (rule loop_body_count_ok)
  with rest show ?case
    by (rule Cons.IH)
qed

text \<open>
  C4, as the code has it. An iteration leaves every entry as it was, except the entry
  under the suffixed key \<open>"{station} {count}"\<close> that it writes: the bare name is only written
  when it is not yet a key. So the entry under the name of the current station is kept by
  all later links of that station, and an entry whose key is not of the form
  \<open>"{name} {n}"\<close> with \<open>n\<close> at least 2 is kept until the end of the extraction.
\<close>

theorem emitted_entries_frame:
  "(loop_body ex st link = Inr st' \<and> map_of (radio_stations st) k = Some v
      \<longrightarrow> map_of (radio_stations st') k = Some v
          \<or> (\<exists>name c. station st = Some name \<and> count st = Some c
               \<and> contains (radio_stations st) name
               \<and> k = name @ '' '' @ str_nat (c + 1)))
   \<and> (loop ex st links = Inr st2 \<and> station st = Some name
        \<and> map_of (radio_stations st) name = Some v
        \<and> (\<forall>l\<in>set links. URL_PATTERN_match (link_text l))
      \<longrightarrow> map_of (radio_stations st2) name = Some v)
   \<and> (loop ex init_locals xs = Inr st1 \<and> map_of (radio_stations st1) k = Some v
        \<and> loop ex init_locals (xs @ ys) = Inr st3
        \<and> (\<forall>name n. 2 \<le> n \<longrightarrow> k \<noteq> name @ '' '' @ str_nat n)
      \<longrightarrow> map_of (radio_stations st3) k = Some v)"
proof (intro conjI impI)
  assume "loop_body ex st link = Inr st' \<and> map_of (radio_stations st) k = Some v"
  then show "map_of (radio_stations st') k = Some v
          \<or> (\<exists>name c. station st = Some name \<and> count st = Some c
               \<and> contains (radio_stations st) name
               \<and> k = name @ '' '' @ str_nat (c + 1))"
    using loop_body_frame [of ex st link st' k v] by simp
next
  assume "loop ex st links = Inr st2 \<and> station st = Some name
        \<and> map_of (radio_stations st) name = Some v
        \<and> (\<forall>l\<in>set links. URL_PATTERN_match (link_text l))"
  then show "map_of (radio_stations st2) name = Some v"
    using loop_keeps_bare_name [of ex st links st2 name v] by simp
next
  assume a: "loop ex init_locals xs = Inr st1 \<and> map_of (radio_stations st1) k = Some v
        \<and> loop ex init_locals (xs @ ys) = Inr st3
        \<and> (\<forall>name n. 2 \<le> n \<longrightarrow> k \<noteq> name @ '' '' @ str_nat n)"
  then have l1: "loop ex init_locals xs = Inr st1"
    and l2: "loop ex init_locals (xs @ ys) = Inr st3"
    by simp_all
  have "loop ex init_locals (xs @ ys) = loop ex st1 ys"
    by (simp add: loop_append l1)
  with l2 have "loop ex st1 ys = Inr st3"
    by simp
  moreover have "count_ok st1"
    using a loop_count_ok [of ex init_locals xs st1] by (simp add: count_ok_def init_locals_def)
  ultimately show "map_of (radio_stations st3) k = Some v"
    using a loop_keeps_plain_key [of ex st1 ys st3 k v] by simp
qed

theorem emitted_entries_frame_witness:
  "download_radio_stations_urls
     [\<lparr>link_text = ''FIP'', href = ''http://a.example/fip.html''\<rparr>,
      \<lparr>link_text = ''http://a.example/fip.mp3'', href = ''http://a.example/fip.mp3''\<rparr>]
     (Some [])
   = Inr [(''FIP'', ''http://a.example/fip.mp3'')]
   \<and> (\<exists>d. download_radio_stations_urls
        [\<lparr>link_text = ''FIP'', href = ''http://a.example/fip.html''\<rparr>,
         \<lparr>link_text = ''http://a.example/fip.mp3'', href = ''http://a.example/fip.mp3''\<rparr>,
         \<lparr>link_text = ''http://a.example/fip.ogg'', href = ''http://a.example/fip.ogg''\<rparr>]
        (Some []) = Inr d
      \<and> map_of d ''FIP'' = Some ''http://a.example/fip.mp3''
      \<and> map_of d ''FIP 2'' = Some ''http://a.example/fip.ogg'')"
proof -
  let ?h = "\<lparr>link_text = ''FIP'', href = ''http://a.example/fip.html''\<rparr>"
  let ?l1 = "\<lparr>link_text = ''http://a.example/fip.mp3'', href = ''http://a.example/fip.mp3''\<rparr>"
  let ?l2 = "\<lparr>link_text = ''http://a.example/fip.ogg'', href = ''http://a.example/fip.ogg''\<rparr>"
  let ?st1 = "\<lparr>radio_stations = [(''FIP'', ''http://a.example/fip.mp3'')],
               station = Some ''FIP'', count = Some 1\<rparr>"
  let ?st3 = "\<lparr>radio_stations = [(''FIP'', ''http://a.example/fip.mp3''),
                                  (''FIP 2'', ''http://a.example/fip.ogg'')],
               station = Some ''FIP'', count = Some 2\<rparr>"
  have run1: "loop (Some []) init_locals [?h, ?l1] = Inr ?st1"
    by (simp add: loop_body_def init_locals_def URL_PATTERN_match_def any_search_def
        contains_def)
  have run3: "loop (Some []) init_locals ([?h, ?l1] @ [?l2]) = Inr ?st3"
    by (simp add: loop_body_def init_locals_def URL_PATTERN_match_def any_search_def
        contains_def str_nat_Suc_Suc_0)
  have plain: "\<forall>name n. 2 \<le> n \<longrightarrow> ''FIP'' \<noteq> name @ '' '' @ str_nat n"
  proof (intro allI impI notI)
    fix name n
    assume "''FIP'' = name @ '' '' @ str_nat n"
    then have "CHR '' '' \<in> set ''FIP''"
      by (metis in_set_conv_decomp append_Cons)
    then show False
      by simp
  qed
  from emitted_entries_frame [where ex = "Some []" and xs = "[?h, ?l1]" and ys = "[?l2]"
      and ?st1.0 = ?st1 and ?st3.0 = ?st3 and k = "''FIP''" and v = "''http://a.example/fip.mp3''"]
    run1 run3 plain
  have kept: "map_of (radio_stations ?st3) ''FIP'' = Some ''http://a.example/fip.mp3''"
    by simp
  from run1 have "download_radio_stations_urls [?h, ?l1] (Some [])
      = Inr [(''FIP'', ''http://a.example/fip.mp3'')]"
    by (simp add: download_radio_stations_urls_def)
  moreover from run3 have "download_radio_stations_urls [?h, ?l1, ?l2] (Some [])
      = Inr (radio_stations ?st3)"
    by (simp add: download_radio_stations_urls_def)
  ultimately show ?thesis
    using kept by simp
qed

text \<open>
  The claim C4 as it is written fails when a suffixed key is already a key: the header
  \<open>FIP 2\<close> binds its bare name, and the second link of the later header \<open>FIP\<close> writes the
  same key.
\<close>

theorem bare_name_overwritten:
  "download_radio_stations_urls
     [\<lparr>link_text = ''FIP 2'', href = ''http://a.example/fip2.html''\<rparr>,
      \<lparr>link_text = ''http://a.example/fip2.mp3'', href = ''http://a.example/fip2.mp3''\<rparr>]
     (Some [])
   = Inr [(''FIP 2'', ''http://a.example/fip2.mp3'')]
   \<and> download_radio_stations_urls
       [\<lparr>link_text = ''FIP 2'', href = ''http://a.example/fip2.html''\<rparr>,
        \<lparr>link_text = ''http://a.example/fip2.mp3'', href = ''http://a.example/fip2.mp3''\<rparr>,
        \<lparr>link_text = ''FIP'', href = ''http://a.example/fip.html''\<rparr>,
        \<lparr>link_text = ''http://a.example/fip.mp3'', href = ''http://a.example/fip.mp3''\<rparr>,
        \<lparr>link_text = ''http://a.example/fip.ogg'', href = ''http://a.example/fip.ogg''\<rparr>]
       (Some [])
     = Inr [(''FIP 2'', ''http://a.example/fip.ogg''), (''FIP'', ''http://a.example/fip.mp3'')]"
  by (simp add: download_radio_stations_urls_def loop_body_def init_locals_def
      URL_PATTERN_match_def any_search_def contains_def str_nat_Suc_Suc_0)

subsection \<open>Decimal numerals are distinct\<close>

lemma digit_char_inj: "a < 10 \<Longrightarrow> b < 10 \<Longrightarrow> digit_char a = digit_char b \<Longrightarrow> a = b"
proof -
  assume "a < 10" and "b < 10" and "digit_char a = digit_char b"
  moreover have "distinct ''0123456789''"
    by simp
  ultimately show "a = b"
    by (simp add: digit_char_def nth_eq_iff_index_eq)
qed

lemma str_nat_small: "n < 10 \<Longrightarrow> str_nat n = [digit_char n]"
  by (subst str_nat.simps) simp

lemma str_nat_large:
  "\<not> n < 10 \<Longrightarrow> str_nat n = str_nat (n div 10) @ [digit_char (n mod 10)]"
  by (subst str_nat.simps) simp

lemma str_nat_inj: "str_nat m = str_nat n \<Longrightarrow> m = n"
proof (induction m arbitrary: n rule: str_nat.induct)
  case (1 m)
  show ?case
  proof (cases "m < 10")
    case m: True
    show ?thesis
    proof (cases "n < 10")
      case True
      with m "1.prems" show ?thesis
        by (simp add: str_nat_small digit_char_inj)
    next
      case False
      with m "1.prems" have "str_nat (n div 10) = []"
        by (simp add: str_nat_small str_nat_large)
      then show ?thesis
        by (simp add: str_nat_nonempty)
    qed
  next
    case m: False
    show ?thesis
    proof (cases "n < 10")
      case True
      with m "1.prems" have "str_nat (m div 10) = []"
        by (simp add: str_nat_small str_nat_large)
      then show ?thesis
        by (simp add: str_nat_nonempty)
    next
      case False
      with m "1.prems" have "str_nat (m div 10) = str_nat (n div 10)"
        and "digit_char (m mod 10) = digit_char (n mod 10)"
        by (simp_all add: str_nat_large)
      then have "m div 10 = n div 10" and "m mod 10 = n mod 10"
        using m "1.IH" by (simp_all add: digit_char_inj)
      then show ?thesis
        by (metis div_mult_mod_eq)
    qed
  qed
qed

lemma suffixed_key_inj: "name @ '' '' @ str_nat m = name @ '' '' @ str_nat n \<longleftrightarrow> m = n"
  by (auto dest: str_nat_inj)

subsection \<open>The links of one station\<close>

text \<open>
  Links that follow the first link of a station: the name is a key, so the \<open>i\<close>-th of them
  gets the counter \<open>c + 1 + i\<close>.
\<close>

lemma loop_suffixed_links:
  assumes "station st = Some name" and "count st = Some c"
    and "contains (radio_stations st) name"
    and "\<forall>l\<in>set links. URL_PATTERN_match (link_text l) \<and> \<not> any_search pats (href l)"
  shows "\<exists>st'. loop (Some pats) st links = Inr st'
           \<and> (\<forall>i<length links.
                 map_of (radio_stations st') (name @ '' '' @ str_nat (c + 1 + i))
                   = Some (href (links ! i)))
           \<and> (\<forall>k. (\<forall>i<length links. k \<noteq> name @ '' '' @ str_nat (c + 1 + i))
                 \<longrightarrow> map_of (radio_stations st') k = map_of (radio_stations st) k)"
  using assms
proof (induction links arbitrary: st c)
  case Nil
  then show ?case by simp
next
  case (Cons a links)
  let ?st1 = "st\<lparr>count := Some (c + 1),
                 radio_stations :=
                   setitem (radio_stations st) (name @ '' '' @ str_nat (c + 1)) (href a)\<rparr>"
  have step: "loop_body (Some pats) st a = Inr ?st1"
    using Cons.prems by (simp add: loop_body_def)
  have "station ?st1 = Some name" and "count ?st1 = Some (c + 1)"
    and "contains (radio_stations ?st1) name"
    using Cons.prems by (simp_all add: contains_setitem)
  moreover have "\<forall>l\<in>set links. URL_PATTERN_match (link_text l) \<and> \<not> any_search pats (href l)"
    using Cons.prems(4) by simp
  ultimately obtain st' where run: "loop (Some pats) ?st1 links = Inr st'"
    and entries: "\<forall>i<length links.
        map_of (radio_stations st') (name @ '' '' @ str_nat (c + 1 + 1 + i))
          = Some (href (links ! i))"
    and frame: "\<forall>k. (\<forall>i<length links. k \<noteq> name @ '' '' @ str_nat (c + 1 + 1 + i))
        \<longrightarrow> map_of (radio_stations st') k = map_of (radio_stations ?st1) k"
    using Cons.IH [of ?st1 "c + 1"] by blast
  have first: "map_of (radio_stations st') (name @ '' '' @ str_nat (c + 1)) = Some (href a)"
  proof -
    have "\<forall>i<length links.
        name @ '' '' @ str_nat (c + 1) \<noteq> name @ '' '' @ str_nat (c + 1 + 1 + i)"
      by (auto dest: str_nat_inj)
    with frame have "map_of (radio_stations st') (name @ '' '' @ str_nat (c + 1))
        = map_of (radio_stations ?st1) (name @ '' '' @ str_nat (c + 1))"
      by blast
    then show ?thesis
      by (simp add: map_of_setitem)
  qed
  have "\<forall>i<length (a # links).
      map_of (radio_stations st') (name @ '' '' @ str_nat (c + 1 + i))
        = Some (href ((a # links) ! i))"
  proof (intro allI impI)
    fix i
    assume i: "i < length (a # links)"
    show "map_of (radio_stations st') (name @ '' '' @ str_nat (c + 1 + i))
        = Some (href ((a # links) ! i))"
    proof (cases i)
      case 0
      with first show ?thesis by simp
    next
      case (Suc j)
      with i entries have "map_of (radio_stations st') (name @ '' '' @ str_nat (c + 1 + 1 + j))
          = Some (href (links ! j))"
        by simp
      with Suc show ?thesis by simp
    qed
  qed
  moreover have "\<forall>k. (\<forall>i<length (a # links). k \<noteq> name @ '' '' @ str_nat (c + 1 + i))
      \<longrightarrow> map_of (radio_stations st') k = map_of (radio_stations st) k"
  proof (intro allI impI)
    fix k
    assume k: "\<forall>i<length (a # links). k \<noteq> name @ '' '' @ str_nat (c + 1 + i)"
    then have "k \<noteq> name @ '' '' @ str_nat (c + 1)"
      by force
    moreover have "\<forall>i<length links. k \<noteq> name @ '' '' @ str_nat (c + 1 + 1 + i)"
    proof (intro allI impI)
      fix i
      assume "i < length links"
      with k have "k \<noteq> name @ '' '' @ str_nat (c + 1 + Suc i)"
        by (metis Suc_less_eq length_Cons)
      then show "k \<noteq> name @ '' '' @ str_nat (c + 1 + 1 + i)"
        by simp
    qed
    ultimately show "map_of (radio_stations st') k = map_of (radio_stations st) k"
      using frame by (simp add: map_of_setitem)
  qed
  ultimately show ?case
    using step run by simp
qed

text \<open>A header whose name is not yet a key, followed by its links.\<close>

lemma loop_station_block:
  assumes header: "\<not> URL_PATTERN_match name" and fresh: "\<not> contains (radio_stations st0) name"
    and nonempty: "links \<noteq> []"
    and links: "\<forall>l\<in>set links. URL_PATTERN_match (link_text l) \<and> \<not> any_search pats (href l)"
  shows "\<exists>st'. loop (Some pats) st0 (\<lparr>link_text = name, href = h\<rparr> # links) = Inr st'
           \<and> map_of (radio_stations st') name = Some (href (links ! 0))
           \<and> (\<forall>i. 0 < i \<and> i < length links
                 \<longrightarrow> map_of (radio_stations st') (name @ '' '' @ str_nat (i + 1))
                       = Some (href (links ! i)))
           \<and> (\<forall>k. k \<noteq> name
                   \<and> (\<forall>i. 0 < i \<and> i < length links \<longrightarrow> k \<noteq> name @ '' '' @ str_nat (i + 1))
                 \<longrightarrow> map_of (radio_stations st') k = map_of (radio_stations st0) k)"
proof -
  from nonempty obtain l0 rest where split_links: "links = l0 # rest"
    by (cases links) auto
  let ?stH = "st0\<lparr>count := Some 1, station := Some name\<rparr>"
  let ?stA = "?stH\<lparr>radio_stations := setitem (radio_stations st0) name (href l0)\<rparr>"
  have stepH: "loop_body (Some pats) st0 \<lparr>link_text = name, href = h\<rparr> = Inr ?stH"
    using header by (simp add: loop_body_def)
  have stepA: "loop_body (Some pats) ?stH l0 = Inr ?stA"
    using fresh links split_links by (simp add: loop_body_def)
  have "station ?stA = Some name" and "count ?stA = Some 1"
    and "contains (radio_stations ?stA) name"
    by (simp_all add: contains_setitem)
  moreover have "\<forall>l\<in>set rest. URL_PATTERN_match (link_text l) \<and> \<not> any_search pats (href l)"
    using links split_links by simp
  ultimately obtain st' where run: "loop (Some pats) ?stA rest = Inr st'"
    and entries: "\<forall>i<length rest.
        map_of (radio_stations st') (name @ '' '' @ str_nat (1 + 1 + i))
          = Some (href (rest ! i))"
    and frame: "\<forall>k. (\<forall>i<length rest. k \<noteq> name @ '' '' @ str_nat (1 + 1 + i))
        \<longrightarrow> map_of (radio_stations st') k = map_of (radio_stations ?stA) k"
    using loop_suffixed_links [of ?stA name 1 rest pats] by blast
  have whole: "loop (Some pats) st0 (\<lparr>link_text = name, href = h\<rparr> # links) = Inr st'"
    using stepH stepA run split_links by simp
  have bare: "map_of (radio_stations st') name = Some (href (links ! 0))"
  proof -
    have "\<forall>i<length rest. name \<noteq> name @ '' '' @ str_nat (1 + 1 + i)"
      by simp
    with frame have "map_of (radio_stations st') name = map_of (radio_stations ?stA) name"
      by blast
    then show ?thesis
      by (simp add: map_of_setitem split_links)
  qed
  have suffixed: "\<forall>i. 0 < i \<and> i < length links
      \<longrightarrow> map_of (radio_stations st') (name @ '' '' @ str_nat (i + 1))
            = Some (href (links ! i))"
  proof (intro allI impI)
    fix i
    assume "0 < i \<and> i < length links"
    then obtain j where j: "i = Suc j" and "j < length rest"
      using split_links by (cases i) auto
    with entries have "map_of (radio_stations st') (name @ '' '' @ str_nat (1 + 1 + j))
        = Some (href (rest ! j))"
      by blast
    with j show "map_of (radio_stations st') (name @ '' '' @ str_nat (i + 1))
        = Some (href (links ! i))"
      by (simp add: split_links)
  qed
  have others: "\<forall>k. k \<noteq> name
        \<and> (\<forall>i. 0 < i \<and> i < length links \<longrightarrow> k \<noteq> name @ '' '' @ str_nat (i + 1))
      \<longrightarrow> map_of (radio_stations st') k = map_of (radio_stations st0) k"
  proof (intro allI impI)
    fix k
    assume k: "k \<noteq> name
        \<and> (\<forall>i. 0 < i \<and> i < length links \<longrightarrow> k \<noteq> name @ '' '' @ str_nat (i + 1))"
    have "\<forall>i<length rest. k \<noteq> name @ '' '' @ str_nat (1 + 1 + i)"
    proof (intro allI impI)
      fix i
      assume "i < length rest"
      then have "0 < Suc i \<and> Suc i < length links"
        by (simp add: split_links)
      with k have "k \<noteq> name @ '' '' @ str_nat (Suc i + 1)"
        by blast
      then show "k \<noteq> name @ '' '' @ str_nat (1 + 1 + i)"
        by simp
    qed
    with frame have "map_of (radio_stations st') k = map_of (radio_stations ?stA) k"
      by blast
    with k show "map_of (radio_stations st') k = map_of (radio_stations st0) k"
      by (simp add: map_of_setitem)
  qed
  from whole bare suffixed others show ?thesis
    by blast
qed

text \<open>
  C2, as the code has it. When a station header whose name is not yet a key of the catalog
  is followed by N stream links, none of them excluded, and the sequence ends there, the
  extraction binds the bare name to the first \<open>href\<close> and the names suffixed with 2 to N to
  the following ones, in anchor order; every other key keeps what it had before the header.
\<close>

theorem station_block_entries:
  assumes "download_radio_stations_urls pre (Some pats) = Inr d0"
    and "\<not> contains d0 name" and "\<not> URL_PATTERN_match name" and "links \<noteq> []"
    and "\<forall>l\<in>set links. URL_PATTERN_match (link_text l) \<and> \<not> any_search pats (href l)"
  shows "\<exists>d. download_radio_stations_urls (pre @ \<lparr>link_text = name, href = h\<rparr> # links)
                (Some pats) = Inr d
           \<and> map_of d name = Some (href (links ! 0))
           \<and> (\<forall>i. 0 < i \<and> i < length links
                 \<longrightarrow> map_of d (name @ '' '' @ str_nat (i + 1)) = Some (href (links ! i)))
           \<and> (\<forall>k. k \<noteq> name
                   \<and> (\<forall>i. 0 < i \<and> i < length links \<longrightarrow> k \<noteq> name @ '' '' @ str_nat (i + 1))
                 \<longrightarrow> map_of d k = map_of d0 k)"
proof -
  from assms(1) obtain st0 where pre: "loop (Some pats) init_locals pre = Inr st0"
    and d0: "d0 = radio_stations st0"
    by (auto simp: download_radio_stations_urls_def split: sum.splits)
  from assms(2) d0 have "\<not> contains (radio_stations st0) name"
    by simp
  with assms(3-5) obtain st' where
    run: "loop (Some pats) st0 (\<lparr>link_text = name, href = h\<rparr> # links) = Inr st'"
    and props: "map_of (radio_stations st') name = Some (href (links ! 0))"
      "\<forall>i. 0 < i \<and> i < length links
         \<longrightarrow> map_of (radio_stations st') (name @ '' '' @ str_nat (i + 1))
               = Some (href (links ! i))"
      "\<forall>k. k \<noteq> name
           \<and> (\<forall>i. 0 < i \<and> i < length links \<longrightarrow> k \<noteq> name @ '' '' @ str_nat (i + 1))
         \<longrightarrow> map_of (radio_stations st') k = map_of (radio_stations st0) k"
    using loop_station_block [of name st0 links pats h] by blast
  have "loop (Some pats) init_locals (pre @ \<lparr>link_text = name, href = h\<rparr> # links) = Inr st'"
    using pre run by (simp add: loop_append)
  then have "download_radio_stations_urls (pre @ \<lparr>link_text = name, href = h\<rparr> # links)
      (Some pats) = Inr (radio_stations st')"
    by (simp add: download_radio_stations_urls_def)
  with props d0 show ?thesis
    by blast
qed

lemma str_nat_3: "str_nat 3 = ''3''"
  by (simp add: str_nat.simps digit_char_def)

lemma str_nat_Suc_Suc_Suc_0: "str_nat (Suc (Suc (Suc 0))) = ''3''"
  using str_nat_3 by (simp add: numeral_3_eq_3)

theorem station_block_entries_witness:
  "\<exists>d. download_radio_stations_urls
          [\<lparr>link_text = ''FIP'', href = ''http://a.example/fip.html''\<rparr>,
           \<lparr>link_text = ''http://a.example/fip.mp3'', href = ''http://a.example/fip.mp3''\<rparr>,
           \<lparr>link_text = ''http://a.example/fip.ogg'', href = ''http://a.example/fip.ogg''\<rparr>,
           \<lparr>link_text = ''http://a.example/fip.aac'', href = ''http://a.example/fip.aac''\<rparr>]
          (Some EXCLUDE_HREF_PATTERNS) = Inr d
      \<and> map_of d ''FIP'' = Some ''http://a.example/fip.mp3''
      \<and> map_of d ''FIP 2'' = Some ''http://a.example/fip.ogg''
      \<and> map_of d ''FIP 3'' = Some ''http://a.example/fip.aac''"
proof -
  let ?l1 = "\<lparr>link_text = ''http://a.example/fip.mp3'', href = ''http://a.example/fip.mp3''\<rparr>"
  let ?l2 = "\<lparr>link_text = ''http://a.example/fip.ogg'', href = ''http://a.example/fip.ogg''\<rparr>"
  let ?l3 = "\<lparr>link_text = ''http://a.example/fip.aac'', href = ''http://a.example/fip.aac''\<rparr>"
  let ?links = "[?l1, ?l2, ?l3]"
  have pre: "download_radio_stations_urls [] (Some EXCLUDE_HREF_PATTERNS) = Inr []"
    by (simp add: download_radio_stations_urls_def init_locals_def)
  have fresh: "\<not> contains ([] :: (string, string) dict) ''FIP''"
    by (simp add: contains_def)
  have header: "\<not> URL_PATTERN_match ''FIP''"
    by (simp add: URL_PATTERN_match_def)
  have links: "\<forall>l\<in>set ?links. URL_PATTERN_match (link_text l)
      \<and> \<not> any_search EXCLUDE_HREF_PATTERNS (href l)"
    by (simp add: URL_PATTERN_match_def any_search_def EXCLUDE_HREF_PATTERNS_def alnum_def)
  from station_block_entries [OF pre fresh header _ links, of "''http://a.example/fip.html''"]
  obtain d where run: "download_radio_stations_urls
      ([] @ \<lparr>link_text = ''FIP'', href = ''http://a.example/fip.html''\<rparr> # ?links)
      (Some EXCLUDE_HREF_PATTERNS) = Inr d"
    and bare: "map_of d ''FIP'' = Some (href (?links ! 0))"
    and suffixed: "\<forall>i. 0 < i \<and> i < length ?links
        \<longrightarrow> map_of d (''FIP'' @ '' '' @ str_nat (i + 1)) = Some (href (?links ! i))"
    by blast
  from suffixed have "map_of d (''FIP'' @ '' '' @ str_nat (1 + 1)) = Some (href (?links ! 1))"
    by (rule allE [where x = 1]) simp
  then have second: "map_of d ''FIP 2'' = Some ''http://a.example/fip.ogg''"
    by (simp add: str_nat_Suc_Suc_0)
  from suffixed have "map_of d (''FIP'' @ '' '' @ str_nat (2 + 1)) = Some (href (?links ! 2))"
    by (rule allE [where x = 2]) simp
  then have third: "map_of d ''FIP 3'' = Some ''http://a.example/fip.aac''"
    by (simp add: str_nat_3)
  from run bare second third show ?thesis
    by simp
qed

text \<open>
  The claim C2 as it is written fails when a header occurs twice: the counter restarts at
  1 while the bare name is already a key, so the links of the second occurrence are stored
  under the suffixes from 2 on. With two links under each occurrence, the second link of
  the first occurrence is lost and there are three entries.
\<close>

theorem repeated_header_overwrites:
  "download_radio_stations_urls
     [\<lparr>link_text = ''FIP'', href = ''http://a.example/fip.html''\<rparr>,
      \<lparr>link_text = ''http://a.example/1.mp3'', href = ''http://a.example/1.mp3''\<rparr>,
      \<lparr>link_text = ''http://a.example/2.mp3'', href = ''http://a.example/2.mp3''\<rparr>,
      \<lparr>link_text = ''FIP'', href = ''http://a.example/fip.html''\<rparr>,
      \<lparr>link_text = ''http://a.example/3.mp3'', href = ''http://a.example/3.mp3''\<rparr>,
      \<lparr>link_text = ''http://a.example/4.mp3'', href = ''http://a.example/4.mp3''\<rparr>]
     (Some [])
   = Inr [(''FIP'', ''http://a.example/1.mp3''), (''FIP 2'', ''http://a.example/3.mp3''),
          (''FIP 3'', ''http://a.example/4.mp3'')]"
  by (simp add: download_radio_stations_urls_def loop_body_def init_locals_def
      URL_PATTERN_match_def any_search_def contains_def str_nat_Suc_Suc_0
      str_nat_Suc_Suc_Suc_0)

end
